theory Spec2Isabelle
  imports Complex_Main
begin

section \<open>The HTTP transport as seen by the scripts\<close>

text \<open>
  The scripts of \<^verbatim>\<open>python_examples\<close> talk to a remote service through
  \<^verbatim>\<open>requests.get\<close>. A call either raises or returns a response with a status
  code and a body. Only the raising points, the requests sent and the sleeps are
  modelled; \<^verbatim>\<open>print\<close> is not, except where the printed expression can raise.
\<close>

datatype message =
    HTTP_status int string
  | Timeout_after int
  | Cannot_connect
  | Request_error
  | Invalid_JSON

text \<open>
  The exception classes that occur. \<open>Timeout\<close>, \<open>ConnectionError\<close> and
  \<open>RequestException\<close> are those of \<^verbatim>\<open>requests.exceptions\<close>,
  \<open>JSONDecodeError\<close> is what \<^verbatim>\<open>response.json()\<close> raises (the class
  \<^verbatim>\<open>requests.exceptions.JSONDecodeError\<close>, which derives from
  \<^verbatim>\<open>RequestException\<close> and from \<^verbatim>\<open>json.JSONDecodeError\<close>),
  \<open>Exception\<close> is an instance of the class \<^verbatim>\<open>Exception\<close> itself with
  its message. \<open>KeyboardInterrupt\<close> stands for the classes that derive from
  \<^verbatim>\<open>BaseException\<close> only, which \<^verbatim>\<open>except Exception\<close> lets through.
\<close>

datatype py_exn =
    Timeout
  | ConnectionError
  | RequestException
  | JSONDecodeError
  | AttributeError
  | KeyError
  | TypeError
  | Exception message
  | KeyboardInterrupt

fun isinstance_Exception :: "py_exn \<Rightarrow> bool" where
  "isinstance_Exception KeyboardInterrupt = False"
| "isinstance_Exception _ = True"

text \<open>
  A parsed JSON document is an object (a dict, here with the values rendered as
  strings) or some other JSON value (a list, a string, a number, null).
\<close>

datatype json = JObject "(string \<times> string) list" | JOther

datatype body = NoContent | Unparseable | Parsed json

record response =
  status_code :: int
  body :: body

type_synonym reply = "py_exn + response"

text \<open>\<^verbatim>\<open>response.json()\<close>: the parsed body, or JSONDecodeError.\<close>

definition response_json :: "response \<Rightarrow> py_exn + json" where
  "response_json r = (case body r of Parsed j \<Rightarrow> Inr j | _ \<Rightarrow> Inl JSONDecodeError)"

text \<open>The truth value of \<^verbatim>\<open>response.content\<close>: the body is not empty.\<close>

definition has_content :: "response \<Rightarrow> bool" where
  "has_content r = (body r \<noteq> NoContent)"

text \<open>\<^verbatim>\<open>d.get(key, default)\<close>: only a dict has the method.\<close>

definition dict_get :: "json \<Rightarrow> string \<Rightarrow> string \<Rightarrow> py_exn + string" where
  "dict_get d k dflt =
     (case d of
        JObject kvs \<Rightarrow> Inr (case map_of kvs k of Some v \<Rightarrow> v | None \<Rightarrow> dflt)
      | JOther \<Rightarrow> Inl AttributeError)"

text \<open>\<^verbatim>\<open>d[key]\<close> with a string key.\<close>

definition subscript :: "json \<Rightarrow> string \<Rightarrow> py_exn + string" where
  "subscript d k =
     (case d of
        JObject kvs \<Rightarrow> (case map_of kvs k of Some v \<Rightarrow> Inr v | None \<Rightarrow> Inl KeyError)
      | JOther \<Rightarrow> Inl TypeError)"

text \<open>
  What the process does to the outside: the requests it sends (the path and the
  parameters, with the values as they stand in the query string) and the time it sleeps,
  in order. The remote service is a function from the number of requests already sent
  to the reply to the next one.
\<close>

datatype event = Request string "(string \<times> string) list" | Sleep rat

record world =
  sent :: nat
  events :: "event list"

type_synonym service = "nat \<Rightarrow> reply"

definition requests_get ::
  "service \<Rightarrow> string \<Rightarrow> (string \<times> string) list \<Rightarrow> world \<Rightarrow> reply \<times> world" where
  "requests_get env url params w =
     (env (sent w), w\<lparr>sent := Suc (sent w), events := events w @ [Request url params]\<rparr>)"

definition time_sleep :: "rat \<Rightarrow> world \<Rightarrow> world" where
  "time_sleep secs w = w\<lparr>events := events w @ [Sleep secs]\<rparr>"

datatype flow = Continue | Break | Raise py_exn

section \<open>rate\_limit\_test.py\<close>

subsection \<open>test\_rate\_limiting\<close>

record tally =
  successful :: nat
  rate_limited :: nat
  errors :: nat

text \<open>
  The body of the \<^verbatim>\<open>try\<close> of one iteration (lines 34 to 48): the exception that
  leaves it, if any, with the counters and the world as they are at that point.
\<close>

definition burst_try :: "service \<Rightarrow> tally \<times> world \<Rightarrow> py_exn option \<times> tally \<times> world" where
  "burst_try env s =
     (case s of (t, w) \<Rightarrow>
      (case requests_get env ''/api/users'' [(''count'', ''1'')] w of
         (Inl e, w1) \<Rightarrow> (Some e, t, w1)
       | (Inr resp, w1) \<Rightarrow>
           if status_code resp = 200 then
             (None, t\<lparr>successful := successful t + 1\<rparr>, time_sleep (1 / 10) w1)
           else if status_code resp = 429 then
             (let t1 = t\<lparr>rate_limited := rate_limited t + 1\<rparr> in
              case response_json resp of
                Inl e \<Rightarrow> (Some e, t1, w1)
              | Inr error_data \<Rightarrow>
                  (case dict_get error_data ''error'' ''Unknown'' of
                     Inl e \<Rightarrow> (Some e, t1, w1)
                   | Inr _ \<Rightarrow> (None, t1, time_sleep (1 / 10) w1)))
           else (None, t\<lparr>errors := errors t + 1\<rparr>, time_sleep (1 / 10) w1)))"

text \<open>One iteration with its handler \<^verbatim>\<open>except Exception as e: errors += 1\<close>.\<close>

definition burst_iteration :: "service \<Rightarrow> tally \<times> world \<Rightarrow> py_exn option \<times> tally \<times> world" where
  "burst_iteration env s =
     (case burst_try env s of
        (None, t, w) \<Rightarrow> (None, t, w)
      | (Some e, t, w) \<Rightarrow>
          if isinstance_Exception e then (None, t\<lparr>errors := errors t + 1\<rparr>, w)
          else (Some e, t, w))"

text \<open>\<^verbatim>\<open>for i in range(n)\<close>; the source runs it with \<open>n = 35\<close>.\<close>

fun burst_loop :: "service \<Rightarrow> nat \<Rightarrow> tally \<times> world \<Rightarrow> py_exn option \<times> tally \<times> world" where
  "burst_loop env 0 s = (None, s)"
| "burst_loop env (Suc n) s =
     (case burst_iteration env s of
        (None, s') \<Rightarrow> burst_loop env n s'
      | (Some e, s') \<Rightarrow> (Some e, s'))"

definition test_rate_limiting :: "service \<Rightarrow> world \<Rightarrow> py_exn option \<times> tally \<times> world" where
  "test_rate_limiting env w =
     burst_loop env 35 (\<lparr>successful = 0, rate_limited = 0, errors = 0\<rparr>, w)"

subsection \<open>test\_rate\_limit\_recovery\<close>

text \<open>Lines 80 and 81: the requests are sent with no handler around them.\<close>

fun saturate :: "service \<Rightarrow> nat \<Rightarrow> world \<Rightarrow> py_exn option \<times> world" where
  "saturate env 0 w = (None, w)"
| "saturate env (Suc n) w =
     (case requests_get env ''/api/users'' [(''count'', ''1'')] w of
        (Inl e, w1) \<Rightarrow> (Some e, w1)
      | (Inr _, w1) \<Rightarrow> saturate env n w1)"

text \<open>\<^verbatim>\<open>range(start, stop, -step)\<close> for a positive \<open>step\<close>.\<close>

function range_down :: "int \<Rightarrow> int \<Rightarrow> int \<Rightarrow> int list" where
  "range_down start stop step =
     (if 0 < step \<and> stop < start then start # range_down (start - step) stop step else [])"
  by pat_completeness auto
termination
  by (relation "measure (\<lambda>(start, stop, step). nat (start - stop))") auto

text \<open>Lines 89 to 91: one sleep of five seconds for every element of the range.\<close>

fun countdown :: "int list \<Rightarrow> world \<Rightarrow> world" where
  "countdown [] w = w"
| "countdown (remaining # rest) w = countdown rest (time_sleep 5 w)"

datatype verdict = Recovered | StillLimited | NotLimitedInitially

definition test_rate_limit_recovery :: "service \<Rightarrow> world \<Rightarrow> (py_exn + verdict) \<times> world" where
  "test_rate_limit_recovery env w =
     (case saturate env 35 w of
        (Some e, w1) \<Rightarrow> (Inl e, w1)
      | (None, w1) \<Rightarrow>
          (case requests_get env ''/api/users'' [(''count'', ''1'')] w1 of
             (Inl e, w2) \<Rightarrow> (Inl e, w2)
           | (Inr resp, w2) \<Rightarrow>
               if status_code resp = 429 then
                 (let w3 = countdown (range_down 65 0 5) w2 in
                  case requests_get env ''/api/users'' [(''count'', ''1'')] w3 of
                    (Inl e, w4) \<Rightarrow> (Inl e, w4)
                  | (Inr resp2, w4) \<Rightarrow>
                      if status_code resp2 = 200 then (Inr Recovered, w4)
                      else (Inr StillLimited, w4))
               else (Inr NotLimitedInitially, w2)))"

subsection \<open>test\_exempt\_endpoints\<close>

text \<open>
  One iteration of the inner loop (lines 125 to 130). The handler is a bare
  \<^verbatim>\<open>except: pass\<close>, which catches every exception.
\<close>

definition exempt_iteration :: "service \<Rightarrow> string \<Rightarrow> nat \<times> world \<Rightarrow> nat \<times> world" where
  "exempt_iteration env endpoint s =
     (case s of (successful', w) \<Rightarrow>
      (case requests_get env endpoint [] w of
         (Inl e, w1) \<Rightarrow> (successful', w1)
       | (Inr resp, w1) \<Rightarrow>
           if status_code resp = 200 then (successful' + 1, w1) else (successful', w1)))"

fun exempt_burst :: "service \<Rightarrow> string \<Rightarrow> nat \<Rightarrow> nat \<times> world \<Rightarrow> nat \<times> world" where
  "exempt_burst env endpoint 0 s = s"
| "exempt_burst env endpoint (Suc n) s = exempt_burst env endpoint n (exempt_iteration env endpoint s)"

text \<open>
  The outer loop over the endpoints; what is reported for an endpoint is its counter
  \<^verbatim>\<open>successful\<close> alone (written \<open>successful'\<close>, the name being a field of \<open>tally\<close>).
\<close>

fun exempt_endpoints_loop ::
  "service \<Rightarrow> nat \<Rightarrow> string list \<Rightarrow> world \<Rightarrow> (string \<times> nat) list \<times> world" where
  "exempt_endpoints_loop env n [] w = ([], w)"
| "exempt_endpoints_loop env n (endpoint # rest) w =
     (case exempt_burst env endpoint n (0, w) of
        (successful', w1) \<Rightarrow>
          (case exempt_endpoints_loop env n rest w1 of
             (reports, w2) \<Rightarrow> ((endpoint, successful') # reports, w2)))"

definition exempt_endpoints :: "string list" where
  "exempt_endpoints = [''/health'', ''/logs?limit=5'', ''/blocklist'']"

definition test_exempt_endpoints :: "service \<Rightarrow> world \<Rightarrow> (string \<times> nat) list \<times> world" where
  "test_exempt_endpoints env w = exempt_endpoints_loop env 50 exempt_endpoints w"

subsection \<open>demonstrate\_backoff\_strategy\<close>

text \<open>
  Line 162, \<^verbatim>\<open>base_delay * (2 ** attempt)\<close>. The source writes the multiplier as
  the literal 2; it is a parameter here and 2 at the only place of use.
\<close>

definition backoff_delay :: "rat \<Rightarrow> rat \<Rightarrow> nat \<Rightarrow> rat" where
  "backoff_delay base_delay multiplier attempt = base_delay * multiplier ^ attempt"

text \<open>
  One iteration of the loop of lines 150 to 170, with its handler
  \<^verbatim>\<open>except Exception\<close>, which only prints. \<^verbatim>\<open>data['count']\<close> is evaluated
  before the \<^verbatim>\<open>break\<close>.
\<close>

definition backoff_iteration :: "service \<Rightarrow> nat \<Rightarrow> rat \<Rightarrow> nat \<Rightarrow> world \<Rightarrow> flow \<times> world" where
  "backoff_iteration env max_retries base_delay attempt w =
     (let handler = (\<lambda>e. if isinstance_Exception e then Continue else Raise e) in
      case requests_get env ''/api/users'' [(''count'', ''10'')] w of
        (Inl e, w1) \<Rightarrow> (handler e, w1)
      | (Inr resp, w1) \<Rightarrow>
          if status_code resp = 200 then
            (case response_json resp of
               Inl e \<Rightarrow> (handler e, w1)
             | Inr data \<Rightarrow>
                 (case subscript data ''count'' of
                    Inl e \<Rightarrow> (handler e, w1)
                  | Inr _ \<Rightarrow> (Break, w1)))
          else if status_code resp = 429 then
            (if int attempt < int max_retries - 1
             then (Continue, time_sleep (backoff_delay base_delay 2 attempt) w1)
             else (Continue, w1))
          else (Continue, w1))"

text \<open>\<^verbatim>\<open>for attempt in range(max_retries)\<close>, over the list of the attempts left.\<close>

fun backoff_loop :: "service \<Rightarrow> nat \<Rightarrow> rat \<Rightarrow> nat list \<Rightarrow> world \<Rightarrow> py_exn option \<times> world" where
  "backoff_loop env max_retries base_delay [] w = (None, w)"
| "backoff_loop env max_retries base_delay (attempt # rest) w =
     (case backoff_iteration env max_retries base_delay attempt w of
        (Continue, w1) \<Rightarrow> backoff_loop env max_retries base_delay rest w1
      | (Break, w1) \<Rightarrow> (None, w1)
      | (Raise e, w1) \<Rightarrow> (Some e, w1))"

definition run_backoff :: "service \<Rightarrow> nat \<Rightarrow> rat \<Rightarrow> world \<Rightarrow> py_exn option \<times> world" where
  "run_backoff env max_retries base_delay w =
     backoff_loop env max_retries base_delay [0..<max_retries] w"

definition demonstrate_backoff_strategy :: "service \<Rightarrow> world \<Rightarrow> py_exn option \<times> world" where
  "demonstrate_backoff_strategy env w = run_backoff env 5 1 w"

section \<open>error\_handling.py\<close>

subsection \<open>APIClient.get\<close>

text \<open>
  The four \<^verbatim>\<open>except\<close> clauses of lines 48 to 55, tried in their order: each
  one raises an \<^verbatim>\<open>Exception\<close> with a message of its own; any other exception
  passes. The error of \<^verbatim>\<open>response.json()\<close> is a \<^verbatim>\<open>RequestException\<close>,
  so the third clause (line 52) catches it and the fourth (line 54, with the message
  \<open>Invalid_JSON\<close>) is not reached.
\<close>

definition get_handlers :: "int \<Rightarrow> py_exn \<Rightarrow> py_exn" where
  "get_handlers timeout e =
     (case e of
        Timeout \<Rightarrow> Exception (Timeout_after timeout)
      | ConnectionError \<Rightarrow> Exception Cannot_connect
      | RequestException \<Rightarrow> Exception Request_error
      | JSONDecodeError \<Rightarrow> Exception Request_error
      | _ \<Rightarrow> e)"

definition APIClient_get ::
  "service \<Rightarrow> int \<Rightarrow> string \<Rightarrow> (string \<times> string) list \<Rightarrow> world \<Rightarrow> (py_exn + json) \<times> world" where
  "APIClient_get env timeout endpoint params w =
     (case requests_get env endpoint params w of
        (Inl e, w1) \<Rightarrow> (Inl (get_handlers timeout e), w1)
      | (Inr resp, w1) \<Rightarrow>
          if status_code resp \<ge> 400 then
            (case (if has_content resp then response_json resp
                   else Inr (JObject [(''error'', ''Unknown error'')])) of
               Inl e \<Rightarrow> (Inl (get_handlers timeout e), w1)
             | Inr error_data \<Rightarrow>
                 (case dict_get error_data ''error'' ''Unknown error'' of
                    Inl e \<Rightarrow> (Inl (get_handlers timeout e), w1)
                  | Inr msg \<Rightarrow>
                      (Inl (get_handlers timeout (Exception (HTTP_status (status_code resp) msg))), w1)))
          else
            (case response_json resp of
               Inl e \<Rightarrow> (Inl (get_handlers timeout e), w1)
             | Inr j \<Rightarrow> (Inr j, w1)))"

subsection \<open>The retry loop of example\_safe\_request\<close>

text \<open>
  One iteration of the loop of lines 108 to 121. The local \<^verbatim>\<open>retry_delay\<close> is
  part of the state. \<^verbatim>\<open>data['count']\<close> is evaluated inside the \<^verbatim>\<open>try\<close>,
  before the \<^verbatim>\<open>break\<close>.
\<close>

definition retry_iteration ::
  "service \<Rightarrow> int \<Rightarrow> nat \<Rightarrow> nat \<Rightarrow> rat \<times> world \<Rightarrow> flow \<times> rat \<times> world" where
  "retry_iteration env timeout max_retries attempt s =
     (case s of (retry_delay, w) \<Rightarrow>
      (let handler = (\<lambda>e w1.
             if isinstance_Exception e then
               (if int attempt < int max_retries - 1
                then (Continue, retry_delay * 2, time_sleep retry_delay w1)
                else (Continue, retry_delay, w1))
             else (Raise e, retry_delay, w1)) in
       case APIClient_get env timeout ''/api/products'' [(''count'', ''2'')] w of
         (Inl e, w1) \<Rightarrow> handler e w1
       | (Inr data, w1) \<Rightarrow>
           (case subscript data ''count'' of
              Inl e \<Rightarrow> handler e w1
            | Inr _ \<Rightarrow> (Break, retry_delay, w1))))"

fun retry_loop ::
  "service \<Rightarrow> int \<Rightarrow> nat \<Rightarrow> nat list \<Rightarrow> rat \<times> world \<Rightarrow> py_exn option \<times> rat \<times> world" where
  "retry_loop env timeout max_retries [] s = (None, s)"
| "retry_loop env timeout max_retries (attempt # rest) s =
     (case retry_iteration env timeout max_retries attempt s of
        (Continue, s1) \<Rightarrow> retry_loop env timeout max_retries rest s1
      | (Break, s1) \<Rightarrow> (None, s1)
      | (Raise e, s1) \<Rightarrow> (Some e, s1))"

definition run_retry :: "service \<Rightarrow> int \<Rightarrow> nat \<Rightarrow> rat \<Rightarrow> world \<Rightarrow> py_exn option \<times> rat \<times> world" where
  "run_retry env timeout max_retries retry_delay w =
     retry_loop env timeout max_retries [0..<max_retries] (retry_delay, w)"

text \<open>
  Examples 1 to 4 (lines 68 to 100): one call each, every \<^verbatim>\<open>Exception\<close> caught
  and printed.
\<close>

definition safe_call ::
  "service \<Rightarrow> int \<Rightarrow> string \<Rightarrow> (string \<times> string) list \<Rightarrow> world \<Rightarrow> py_exn option \<times> world" where
  "safe_call env timeout endpoint params w =
     (case APIClient_get env timeout endpoint params w of
        (Inl e, w1) \<Rightarrow> (if isinstance_Exception e then None else Some e, w1)
      | (Inr _, w1) \<Rightarrow> (None, w1))"

definition example_safe_request :: "service \<Rightarrow> world \<Rightarrow> py_exn option \<times> world" where
  "example_safe_request env w =
     (case safe_call env 10 ''/api/users'' [(''count'', ''3'')] w of
        (Some e, w1) \<Rightarrow> (Some e, w1)
      | (None, w1) \<Rightarrow>
     (case safe_call env 10 ''/api/users'' [(''count'', ''150'')] w1 of
        (Some e, w2) \<Rightarrow> (Some e, w2)
      | (None, w2) \<Rightarrow>
     (case safe_call env 10 ''/api/invalid'' [] w2 of
        (Some e, w3) \<Rightarrow> (Some e, w3)
      | (None, w3) \<Rightarrow>
     (case safe_call env 10 ''/api/random'' [(''type'', ''invalid''), (''count'', ''1'')] w3 of
        (Some e, w4) \<Rightarrow> (Some e, w4)
      | (None, w4) \<Rightarrow>
          (case run_retry env 10 3 1 w4 of (x, _, w5) \<Rightarrow> (x, w5))))))"

section \<open>Notions used in the statements\<close>

text \<open>
  Classes of replies, read off the branches of the code. A reply is fatal when it is
  an exception that \<^verbatim>\<open>except Exception\<close> does not catch.
\<close>

definition fatal :: "reply \<Rightarrow> bool" where
  "fatal r = (case r of Inl e \<Rightarrow> \<not> isinstance_Exception e | Inr _ \<Rightarrow> False)"

definition throttled :: "reply \<Rightarrow> bool" where
  "throttled r = (case r of Inl _ \<Rightarrow> False | Inr resp \<Rightarrow> status_code resp = 429)"

definition is_200 :: "reply \<Rightarrow> bool" where
  "is_200 r = (case r of Inl _ \<Rightarrow> False | Inr resp \<Rightarrow> status_code resp = 200)"

text \<open>The body is a JSON object with a key \<open>count\<close>.\<close>

definition has_count :: "response \<Rightarrow> bool" where
  "has_count resp =
     (case body resp of
        Parsed (JObject kvs) \<Rightarrow> (case map_of kvs ''count'' of Some _ \<Rightarrow> True | None \<Rightarrow> False)
      | _ \<Rightarrow> False)"

text \<open>The replies on which the loop of demonstrate\_backoff\_strategy stops.\<close>

definition users_ok :: "reply \<Rightarrow> bool" where
  "users_ok r = (case r of Inl _ \<Rightarrow> False | Inr resp \<Rightarrow> status_code resp = 200 \<and> has_count resp)"

text \<open>The replies on which the retry loop of example\_safe\_request stops.\<close>

definition products_ok :: "reply \<Rightarrow> bool" where
  "products_ok r = (case r of Inl _ \<Rightarrow> False | Inr resp \<Rightarrow> status_code resp < 400 \<and> has_count resp)"

text \<open>
  A throttled response, any other response with a status of 400 or more, or a
  transport error that is an \<^verbatim>\<open>Exception\<close>.
\<close>

definition failing :: "reply \<Rightarrow> bool" where
  "failing r = (case r of Inl e \<Rightarrow> isinstance_Exception e | Inr resp \<Rightarrow> status_code resp \<ge> 400)"

text \<open>
  The replies that the \<^verbatim>\<open>try\<close> body of test\_rate\_limiting handles to its
  end, the sleep included.
\<close>

definition quiet :: "reply \<Rightarrow> bool" where
  "quiet r =
     (case r of
        Inl _ \<Rightarrow> False
      | Inr resp \<Rightarrow>
          if status_code resp = 429
          then (case body resp of Parsed (JObject _) \<Rightarrow> True | _ \<Rightarrow> False)
          else True)"

definition users_request :: "string \<Rightarrow> event" where
  "users_request c = Request ''/api/users'' [(''count'', c)]"

definition products_request :: event where
  "products_request = Request ''/api/products'' [(''count'', ''2'')]"

definition burst_events :: "reply \<Rightarrow> event list" where
  "burst_events r = users_request ''1'' # (if quiet r then [Sleep (1 / 10)] else [])"

fun is_Request :: "event \<Rightarrow> bool" where
  "is_Request (Request _ _) = True"
| "is_Request (Sleep _) = False"

fun is_Sleep :: "event \<Rightarrow> bool" where
  "is_Sleep (Sleep _) = True"
| "is_Sleep (Request _ _) = False"

text \<open>
  What one attempt of the loop of demonstrate\_backoff\_strategy does when it does not
  stop the loop: the request, and a sleep when the reply is a 429 and attempts remain.
\<close>

definition backoff_events :: "nat \<Rightarrow> rat \<Rightarrow> nat \<Rightarrow> reply \<Rightarrow> event list" where
  "backoff_events max_retries base_delay attempt r =
     users_request ''10'' #
     (if throttled r \<and> Suc attempt < max_retries
      then [Sleep (backoff_delay base_delay 2 attempt)] else [])"

subsection \<open>Concrete services\<close>

definition w0 :: world where
  "w0 = \<lparr>sent = 0, events = []\<rparr>"

definition t0 :: tally where
  "t0 = \<lparr>successful = 0, rate_limited = 0, errors = 0\<rparr>"

definition answer :: "int \<Rightarrow> body \<Rightarrow> reply" where
  "answer code b = Inr \<lparr>status_code = code, body = b\<rparr>"

definition users_body :: body where
  "users_body = Parsed (JObject [(''success'', ''true''), (''count'', ''1'')])"

definition limit_body :: body where
  "limit_body = Parsed (JObject [(''error'', ''Rate limit exceeded'')])"

text \<open>Every request is answered alike.\<close>

definition always :: "reply \<Rightarrow> service" where
  "always r = (\<lambda>i. r)"

text \<open>The first \<open>n\<close> requests are answered with \<open>r\<close>, the later ones with \<open>r'\<close>.\<close>

definition first_then :: "nat \<Rightarrow> reply \<Rightarrow> reply \<Rightarrow> service" where
  "first_then n r r' = (\<lambda>i. if i < n then r else r')"

text \<open>
  A proxy in front of the service answers the first request with status 429 and a
  page that is not JSON; the service answers the others.
\<close>

definition html_429 :: service where
  "html_429 = first_then 1 (answer 429 Unparseable) (answer 200 users_body)"

text \<open>The connection is refused once, then the service answers.\<close>

definition refused_once :: service where
  "refused_once = first_then 1 (Inl ConnectionError) (answer 200 users_body)"

text \<open>Requests 30 to 34 are throttled, all others succeed.\<close>

definition throttled_in_burst :: service where
  "throttled_in_burst = (\<lambda>i. if 30 \<le> i \<and> i < 35 then answer 429 limit_body else answer 200 users_body)"

lemmas model_defs =
  response_json_def has_content_def dict_get_def subscript_def requests_get_def time_sleep_def
  burst_try_def burst_iteration_def exempt_iteration_def backoff_delay_def
  backoff_iteration_def get_handlers_def APIClient_get_def retry_iteration_def

lemmas notion_defs =
  fatal_def throttled_def is_200_def has_count_def users_ok_def products_ok_def failing_def
  quiet_def users_request_def products_request_def burst_events_def

lemmas service_defs =
  w0_def t0_def answer_def users_body_def limit_body_def always_def first_then_def
  html_429_def refused_once_def throttled_in_burst_def

section \<open>The burst of test\_rate\_limiting\<close>

lemma burst_iteration_events:
  assumes "\<not> fatal (env (sent w))"
  shows "\<exists>t'. burst_iteration env (t, w) =
           (None, t', \<lparr>sent = Suc (sent w), events = events w @ burst_events (env (sent w))\<rparr>)"
  using assms
  by (auto simp: model_defs notion_defs Let_def split: sum.splits body.splits json.splits)

lemma burst_loop_events:
  assumes "\<forall>i<n. \<not> fatal (env (sent w + i))"
  shows "\<exists>t'. burst_loop env n (t, w) =
           (None, t', \<lparr>sent = sent w + n,
              events = events w @ concat (map (\<lambda>i. burst_events (env (sent w + i))) [0..<n])\<rparr>)"
  using assms
proof (induction n arbitrary: t w)
  case 0
  then show ?case by simp
next
  case (Suc n)
  from Suc.prems have "\<not> fatal (env (sent w))" by (metis add.right_neutral zero_less_Suc)
  from burst_iteration_events[of env w t, OF this] obtain t1 where
    it: "burst_iteration env (t, w) =
           (None, t1, \<lparr>sent = Suc (sent w), events = events w @ burst_events (env (sent w))\<rparr>)"
    by blast
  let ?w1 = "\<lparr>sent = Suc (sent w), events = events w @ burst_events (env (sent w))\<rparr>"
  have "\<forall>i<n. \<not> fatal (env (sent ?w1 + i))"
    using Suc.prems by auto
  from Suc.IH[of ?w1 t1, OF this] obtain t' where
    "burst_loop env n (t1, ?w1) =
       (None, t', \<lparr>sent = sent ?w1 + n,
          events = events ?w1 @ concat (map (\<lambda>i. burst_events (env (sent ?w1 + i))) [0..<n])\<rparr>)"
    by blast
  moreover have "concat (map (\<lambda>i. burst_events (env (sent w + i))) [0..<Suc n]) =
      burst_events (env (sent w)) @ concat (map (\<lambda>i. burst_events (env (Suc (sent w) + i))) [0..<n])"
    by (simp only: upt_conv_Cons[of 0 "Suc n"] map_Suc_upt[symmetric]) (simp add: comp_def del: upt_Suc)
  ultimately show ?case using it by (simp del: upt_Suc)
qed

text \<open>
  C1, as the code has it. One iteration of the burst counts a response with status
  exactly 200 as a success and nothing else. A response with status 429 always moves
  the counter of the rate limited by one and never the counter of the successes; when
  its body is a JSON object, with or without a key \<open>error\<close>, it moves no other
  counter. Every status other than 200 and 429, and every transport failure that is an
  \<^verbatim>\<open>Exception\<close>, counts as an error and nothing else. In all these cases the
  iteration ends without an exception.
\<close>

theorem probe_classification:
  "(\<forall>resp. env (sent w) = Inr resp \<and> status_code resp = 200 \<longrightarrow>
      (\<exists>w'. burst_iteration env (t, w) = (None, t\<lparr>successful := successful t + 1\<rparr>, w')))
   \<and> (\<forall>resp. env (sent w) = Inr resp \<and> status_code resp = 429 \<longrightarrow>
      (\<exists>t' w'. burst_iteration env (t, w) = (None, t', w')
         \<and> successful t' = successful t \<and> rate_limited t' = rate_limited t + 1
         \<and> (\<forall>kvs. body resp = Parsed (JObject kvs) \<longrightarrow> errors t' = errors t)))
   \<and> (\<forall>resp. env (sent w) = Inr resp \<and> status_code resp \<noteq> 200 \<and> status_code resp \<noteq> 429 \<longrightarrow>
      (\<exists>w'. burst_iteration env (t, w) = (None, t\<lparr>errors := errors t + 1\<rparr>, w')))
   \<and> (\<forall>e. env (sent w) = Inl e \<and> isinstance_Exception e \<longrightarrow>
      (\<exists>w'. burst_iteration env (t, w) = (None, t\<lparr>errors := errors t + 1\<rparr>, w')))"
  by (auto simp: model_defs Let_def split: sum.splits body.splits json.splits)

theorem probe_classification_witness:
  "(\<exists>w'. burst_iteration (always (answer 200 users_body)) (t0, w0) = (None, t0\<lparr>successful := 1\<rparr>, w'))
   \<and> (\<exists>t' w'. burst_iteration (always (answer 429 (Parsed (JObject [])))) (t0, w0) = (None, t', w')
         \<and> successful t' = 0 \<and> rate_limited t' = 1 \<and> errors t' = 0)
   \<and> (\<exists>w'. burst_iteration (always (answer 500 NoContent)) (t0, w0) = (None, t0\<lparr>errors := 1\<rparr>, w'))
   \<and> (\<exists>w'. burst_iteration (always (Inl Timeout)) (t0, w0) = (None, t0\<lparr>errors := 1\<rparr>, w'))"
  using probe_classification[of "always (answer 200 users_body)" w0 t0]
    probe_classification[of "always (answer 429 (Parsed (JObject [])))" w0 t0]
    probe_classification[of "always (answer 500 NoContent)" w0 t0]
    probe_classification[of "always (Inl Timeout)" w0 t0]
  by (simp add: service_defs)

text \<open>
  The claim C1 as written fails: a response with status 201, which lies in 200 to 299,
  is counted as an error and not as a success.
\<close>

theorem status_201_counterexample:
  "burst_iteration (always (answer 201 users_body)) (t0, w0) =
     (None, \<lparr>successful = 0, rate_limited = 0, errors = 1\<rparr>,
      \<lparr>sent = 1, events = [users_request ''1'', Sleep (1 / 10)]\<rparr>)"
  by (simp add: model_defs service_defs notion_defs)

text \<open>
  C2. The sum of the three counters is meant to be the number of requests (the script
  prints it as \<open>Total\<close>), but a response with status 429 whose body is not JSON is
  counted twice: \<^verbatim>\<open>rate_limited\<close> is incremented before \<^verbatim>\<open>response.json()\<close>
  raises, and the handler then increments \<^verbatim>\<open>errors\<close>. With one such response
  among the 35, the counters sum to 36.
\<close>

theorem unparseable_429_counted_twice:
  "(case test_rate_limiting html_429 w0 of
      (x, t, w) \<Rightarrow> (x, t, successful t + rate_limited t + errors t, sent w)) =
   (None, \<lparr>successful = 34, rate_limited = 1, errors = 1\<rparr>, 36, 35)"
  by (simp add: test_rate_limiting_def eval_nat_numeral model_defs service_defs)

text \<open>
  Apart from that case the counters do sum to the number of requests: when no reply is
  a 429 with a body that is not a JSON object (and none is an exception that the
  handler lets through), a burst of \<open>n\<close> adds exactly \<open>n\<close> to the sum.
\<close>

lemma burst_iteration_total:
  assumes "\<not> fatal (env (sent w))" and "throttled (env (sent w)) \<longrightarrow> quiet (env (sent w))"
  shows "\<exists>t' w'. burst_iteration env (t, w) = (None, t', w') \<and> sent w' = Suc (sent w)
     \<and> successful t' + rate_limited t' + errors t' =
         Suc (successful t + rate_limited t + errors t)"
  using assms
  by (auto simp: model_defs notion_defs Let_def split: sum.splits body.splits json.splits)

lemma burst_loop_total:
  assumes "\<forall>i<n. \<not> fatal (env (sent w + i))
             \<and> (throttled (env (sent w + i)) \<longrightarrow> quiet (env (sent w + i)))"
  shows "\<exists>t' w'. burst_loop env n (t, w) = (None, t', w')
     \<and> successful t' + rate_limited t' + errors t' =
         successful t + rate_limited t + errors t + n"
  using assms
proof (induction n arbitrary: t w)
  case 0
  then show ?case by simp
next
  case (Suc n)
  from Suc.prems[rule_format, of 0]
  have "\<not> fatal (env (sent w))" "throttled (env (sent w)) \<longrightarrow> quiet (env (sent w))"
    by simp_all
  from burst_iteration_total[of env w t, OF this] obtain t1 w1 where
    it: "burst_iteration env (t, w) = (None, t1, w1)" "sent w1 = Suc (sent w)"
      "successful t1 + rate_limited t1 + errors t1 =
         Suc (successful t + rate_limited t + errors t)"
    by blast
  have "\<forall>i<n. \<not> fatal (env (sent w1 + i))
      \<and> (throttled (env (sent w1 + i)) \<longrightarrow> quiet (env (sent w1 + i)))"
    using Suc.prems it(2) by auto
  from Suc.IH[of w1 t1, OF this] it show ?case by auto
qed

text \<open>
  C8. The burst sends all its requests, but the delay between requests (the comment of
  line 48) is missing after a request that ends in the handler, because
  \<^verbatim>\<open>time.sleep(0.1)\<close> stands inside the \<^verbatim>\<open>try\<close> body. When the
  connection is refused for the first request, the second request follows it with no
  sleep in between; all 35 requests are sent.
\<close>

theorem refused_probe_not_followed_by_sleep:
  "take 3 (events (snd (snd (test_rate_limiting refused_once w0)))) =
     [users_request ''1'', users_request ''1'', Sleep (1 / 10)]
   \<and> sent (snd (snd (test_rate_limiting refused_once w0))) = 35"
  by (simp add: test_rate_limiting_def eval_nat_numeral model_defs service_defs notion_defs)

section \<open>The backoff delay\<close>

text \<open>
  C7. For a positive base delay and a multiplier above 1, the delay
  \<open>base_delay * multiplier ^ attempt\<close> is strictly increasing in the attempt, and
  the delay of attempt 0 is the base delay. The code uses it with the multiplier 2.
\<close>

theorem backoff_delay_strictly_increasing:
  "0 < base_delay \<Longrightarrow> 1 < multiplier \<Longrightarrow>
     backoff_delay base_delay multiplier 0 = base_delay \<and>
     (\<forall>a b. a < b \<longrightarrow>
        backoff_delay base_delay multiplier a < backoff_delay base_delay multiplier b)"
  by (simp add: backoff_delay_def power_strict_increasing)

theorem backoff_delay_strictly_increasing_witness:
  "(0::rat) < 1 \<and> (1::rat) < 2 \<and> backoff_delay 1 2 0 = 1 \<and> backoff_delay 1 2 3 < backoff_delay 1 2 4"
  using backoff_delay_strictly_increasing[of 1 2]
  by (simp add: backoff_delay_def)

section \<open>test\_rate\_limit\_recovery\<close>

lemma world_update_eq [simp]:
  "(w::world)\<lparr>sent := a, events := b\<rparr> = \<lparr>sent = a, events = b\<rparr>"
  by (cases w) simp

lemma upt_0_Suc: "[0..<Suc n] = 0 # map Suc [0..<n]"
  by (simp add: upt_conv_Cons map_Suc_upt del: upt_Suc)

lemma saturate_events:
  assumes "\<forall>i<n. \<not> isl (env (sent w + i))"
  shows "saturate env n w =
           (None, \<lparr>sent = sent w + n, events = events w @ replicate n (users_request ''1'')\<rparr>)"
  using assms
proof (induction n arbitrary: w)
  case 0
  then show ?case by simp
next
  case (Suc n)
  from Suc.prems have "\<not> isl (env (sent w))" by (metis add.right_neutral zero_less_Suc)
  then obtain resp where r: "env (sent w) = Inr resp" by (cases "env (sent w)") auto
  let ?w1 = "\<lparr>sent = Suc (sent w), events = events w @ [users_request ''1'']\<rparr>"
  have step: "saturate env (Suc n) w = saturate env n ?w1"
    using r by (simp add: requests_get_def users_request_def)
  have "\<forall>i<n. \<not> isl (env (sent ?w1 + i))" using Suc.prems by auto
  from Suc.IH[of ?w1, OF this] show ?case
    unfolding step by (simp add: replicate_app_Cons_same)
qed

lemma countdown_events:
  "countdown xs w = w\<lparr>events := events w @ replicate (length xs) (Sleep 5)\<rparr>"
  by (induction xs arbitrary: w) (simp_all add: time_sleep_def replicate_app_Cons_same)

lemma range_65_0_5:
  "range_down 65 0 5 = [65, 60, 55, 50, 45, 40, 35, 30, 25, 20, 15, 10, 5]"
  by simp

lemma countdown_range:
  "countdown (range_down 65 0 5) w = w\<lparr>events := events w @ replicate 13 (Sleep 5)\<rparr>"
proof -
  have "length (range_down 65 0 5) = 13" by simp
  then show ?thesis by (simp only: countdown_events)
qed

text \<open>
  C4, as the code has it. Once the probe after the burst is answered with 429, the
  script waits 65 seconds, as 13 sleeps of 5 seconds that follow each other with no
  request in between, and then sends exactly one request to the same endpoint.
\<close>

theorem recovery_wait_then_one_probe:
  assumes "\<forall>i<35. \<not> isl (env (sent w + i))" and "throttled (env (sent w + 35))"
  shows "events (snd (test_rate_limit_recovery env w)) =
           events w @ replicate 36 (users_request ''1'') @ replicate 13 (Sleep 5) @ [users_request ''1'']
         \<and> sent (snd (test_rate_limit_recovery env w)) = sent w + 37"
proof -
  from assms(2) obtain resp where r: "env (sent w + 35) = Inr resp" "status_code resp = 429"
    by (cases "env (sent w + 35)") (auto simp: throttled_def)
  have rep: "replicate 36 (users_request ''1'') = replicate 35 (users_request ''1'') @ [users_request ''1'']"
    using replicate_add[of 35 1 "users_request ''1''"] by simp
  show ?thesis
    unfolding test_rate_limit_recovery_def saturate_events[OF assms(1)] rep
    using r
    by (simp add: requests_get_def countdown_range users_request_def Let_def
        del: range_down.simps split: sum.splits)
qed

theorem recovery_wait_then_one_probe_witness:
  "events (snd (test_rate_limit_recovery (always (answer 429 limit_body)) w0)) =
     replicate 36 (users_request ''1'') @ replicate 13 (Sleep 5) @ [users_request ''1'']
   \<and> sent (snd (test_rate_limit_recovery (always (answer 429 limit_body)) w0)) = 37"
  using recovery_wait_then_one_probe[of "always (answer 429 limit_body)" w0]
  by (simp add: service_defs throttled_def)

text \<open>
  The claim C4 as written fails: the wait is not one sleep of 60 seconds, it is 13
  sleeps of 5 seconds, 65 seconds in all.
\<close>

theorem recovery_wait_counterexample:
  "filter is_Sleep (events (snd (test_rate_limit_recovery (always (answer 429 limit_body)) w0))) =
     replicate 13 (Sleep 5)
   \<and> filter is_Sleep (events (snd (test_rate_limit_recovery (always (answer 429 limit_body)) w0))) \<noteq>
     [Sleep 60]"
  by (simp add: test_rate_limit_recovery_def eval_nat_numeral requests_get_def time_sleep_def
      service_defs Let_def)

lemma saturate_raises:
  assumes "k < n" and "\<forall>i<k. \<not> isl (env (sent w + i))" and "env (sent w + k) = Inl e"
  shows "saturate env n w =
           (Some e, \<lparr>sent = sent w + Suc k,
              events = events w @ replicate (Suc k) (users_request ''1'')\<rparr>)"
  using assms
proof (induction k arbitrary: n w)
  case 0
  then obtain m where n: "n = Suc m" by (cases n) auto
  from 0 show ?case by (simp add: n requests_get_def users_request_def)
next
  case (Suc k)
  then obtain m where n: "n = Suc m" and m: "k < m" by (cases n) auto
  from Suc.prems(2)[rule_format, of 0] obtain resp where r: "env (sent w) = Inr resp"
    by (cases "env (sent w)") auto
  let ?w1 = "\<lparr>sent = Suc (sent w), events = events w @ [users_request ''1'']\<rparr>"
  have step: "saturate env n w = saturate env m ?w1"
    using r by (simp add: n requests_get_def users_request_def)
  have a: "\<forall>i<k. \<not> isl (env (sent ?w1 + i))" using Suc.prems(2) by auto
  have b: "env (sent ?w1 + k) = Inl e" using Suc.prems(3) by simp
  from Suc.IH[of m ?w1, OF m a b] show ?case
    unfolding step by (simp add: replicate_app_Cons_same)
qed

text \<open>
  C5, as the code has it. The 35 requests of the burst and the probe that follows them
  are sent with no handler: the first of these 36 requests that fails in the transport
  ends the script with that exception. When all 36 are answered, the script takes the
  path of the wait exactly when that one probe, the 36th request, is answered with 429,
  and otherwise ends with ``was not rate limited initially''; the statuses of the replies
  to the burst are never looked at.
\<close>

theorem saturation_decided_by_extra_probe:
  "((\<forall>i<36. \<not> isl (env (sent w + i))) \<longrightarrow>
      (fst (test_rate_limit_recovery env w) = Inr NotLimitedInitially) =
        (\<not> throttled (env (sent w + 35))))
   \<and> (\<forall>k e. k < 36 \<and> (\<forall>i<k. \<not> isl (env (sent w + i))) \<and> env (sent w + k) = Inl e \<longrightarrow>
        fst (test_rate_limit_recovery env w) = Inl e
        \<and> sent (snd (test_rate_limit_recovery env w)) = sent w + Suc k)"
proof -
  have first: "(fst (test_rate_limit_recovery env w) = Inr NotLimitedInitially) =
      (\<not> throttled (env (sent w + 35)))"
    if all: "\<forall>i<36. \<not> isl (env (sent w + i))"
  proof -
    from all have a: "\<forall>i<35. \<not> isl (env (sent w + i))" by auto
    from all[rule_format, of 35] obtain resp where r: "env (sent w + 35) = Inr resp"
      by (cases "env (sent w + 35)") auto
    show ?thesis
      unfolding test_rate_limit_recovery_def saturate_events[OF a]
      using r
      by (simp add: requests_get_def throttled_def Let_def split: sum.splits)
  qed
  have second: "fst (test_rate_limit_recovery env w) = Inl e
      \<and> sent (snd (test_rate_limit_recovery env w)) = sent w + Suc k"
    if h: "k < 36 \<and> (\<forall>i<k. \<not> isl (env (sent w + i))) \<and> env (sent w + k) = Inl e" for k e
  proof (cases "k < 35")
    case True
    from h have "\<forall>i<k. \<not> isl (env (sent w + i))" and "env (sent w + k) = Inl e" by simp_all
    from saturate_raises[OF True this] show ?thesis
      unfolding test_rate_limit_recovery_def by simp
  next
    case False
    with h have k: "k = 35" by simp
    from h k have a: "\<forall>i<35. \<not> isl (env (sent w + i))" and e: "env (sent w + 35) = Inl e"
      by simp_all
    show ?thesis
      unfolding test_rate_limit_recovery_def saturate_events[OF a]
      using e by (simp add: requests_get_def k)
  qed
  from first second show ?thesis by blast
qed

theorem saturation_decided_by_extra_probe_witness:
  "(fst (test_rate_limit_recovery (first_then 35 (answer 200 users_body) (answer 429 limit_body)) w0)
      = Inr NotLimitedInitially) = False
   \<and> fst (test_rate_limit_recovery (first_then 3 (answer 200 users_body) (Inl ConnectionError)) w0)
      = Inl ConnectionError
   \<and> sent (snd (test_rate_limit_recovery
        (first_then 3 (answer 200 users_body) (Inl ConnectionError)) w0)) = 4"
  using saturation_decided_by_extra_probe[of
      "first_then 35 (answer 200 users_body) (answer 429 limit_body)" w0]
    saturation_decided_by_extra_probe[of
      "first_then 3 (answer 200 users_body) (Inl ConnectionError)" w0,
      THEN conjunct2, rule_format, of 3 ConnectionError]
  by (simp add: service_defs throttled_def)

text \<open>
  The claim C5 as written fails: requests 30 to 34 of the burst are throttled, the probe
  after the burst succeeds, and the script ends with ``was not rate limited initially''.
\<close>

theorem throttled_burst_counterexample:
  "throttled (throttled_in_burst 30) \<and> throttled (throttled_in_burst 34)
   \<and> fst (test_rate_limit_recovery throttled_in_burst w0) = Inr NotLimitedInitially"
  by (simp add: test_rate_limit_recovery_def eval_nat_numeral requests_get_def
      service_defs throttled_def)

section \<open>test\_exempt\_endpoints\<close>

lemma exempt_iteration_eq:
  "exempt_iteration env ep (c, w) =
     (if is_200 (env (sent w)) then c + 1 else c,
      \<lparr>sent = Suc (sent w), events = events w @ [Request ep []]\<rparr>)"
  by (simp add: exempt_iteration_def requests_get_def is_200_def split: sum.splits)

lemma exempt_burst_eq:
  "exempt_burst env ep n (c, w) =
     (c + length (filter (\<lambda>i. is_200 (env (sent w + i))) [0..<n]),
      \<lparr>sent = sent w + n, events = events w @ replicate n (Request ep [])\<rparr>)"
proof (induction n arbitrary: c w)
  case 0
  then show ?case by simp
next
  case (Suc n)
  have f: "filter (\<lambda>i. is_200 (env (sent w + i))) [0..<Suc n] =
      (if is_200 (env (sent w)) then [0] else []) @
      map Suc (filter (\<lambda>i. is_200 (env (Suc (sent w) + i))) [0..<n])"
    by (simp add: upt_0_Suc filter_map comp_def del: upt_Suc)
  show ?case
    by (simp only: exempt_burst.simps exempt_iteration_eq Suc.IH f)
       (simp add: replicate_app_Cons_same del: upt_Suc)
qed

lemma exempt_endpoints_loop_cong:
  assumes "\<forall>i. is_200 (env i) = is_200 (env' i)"
  shows "exempt_endpoints_loop env n eps w = exempt_endpoints_loop env' n eps w"
  by (induction eps arbitrary: w) (simp_all add: exempt_burst_eq assms del: upt_Suc)

text \<open>
  C10. In a burst of test\_exempt\_endpoints every exception of a request is swallowed and
  leaves the counter as it was; the counter moves, by one, exactly on a response with
  status 200; the number reported for an endpoint is the number of such responses; so two
  services that answer 200 at the same requests give the same report, whatever else
  they answer (429, another status, a transport failure).
\<close>

theorem exempt_burst_counts_only_200:
  "(\<forall>e. env (sent w) = Inl e \<longrightarrow> fst (exempt_iteration env ep (c, w)) = c)
   \<and> fst (exempt_iteration env ep (c, w)) = (if is_200 (env (sent w)) then c + 1 else c)
   \<and> fst (exempt_burst env ep n (0, w)) = length (filter (\<lambda>i. is_200 (env (sent w + i))) [0..<n])
   \<and> ((\<forall>i. is_200 (env i) = is_200 (env' i)) \<longrightarrow>
        fst (test_exempt_endpoints env w) = fst (test_exempt_endpoints env' w))"
proof (intro conjI allI impI)
  fix e assume "env (sent w) = Inl e"
  then show "fst (exempt_iteration env ep (c, w)) = c"
    by (simp add: exempt_iteration_eq is_200_def)
next
  show "fst (exempt_iteration env ep (c, w)) = (if is_200 (env (sent w)) then c + 1 else c)"
    by (simp add: exempt_iteration_eq)
next
  show "fst (exempt_burst env ep n (0, w)) =
      length (filter (\<lambda>i. is_200 (env (sent w + i))) [0..<n])"
    by (simp add: exempt_burst_eq del: upt_Suc)
next
  assume "\<forall>i. is_200 (env i) = is_200 (env' i)"
  then show "fst (test_exempt_endpoints env w) = fst (test_exempt_endpoints env' w)"
    unfolding test_exempt_endpoints_def
    using exempt_endpoints_loop_cong[of env env' 50 exempt_endpoints w] by simp
qed

theorem exempt_burst_counts_only_200_witness:
  "fst (exempt_iteration (always (Inl KeyboardInterrupt)) ''/health'' (7, w0)) = 7
   \<and> fst (test_exempt_endpoints (always (answer 429 limit_body)) w0) =
       fst (test_exempt_endpoints (always (Inl ConnectionError)) w0)"
  using exempt_burst_counts_only_200[of "always (Inl KeyboardInterrupt)" w0 "''/health''" 7 0
      "always (Inl KeyboardInterrupt)"]
    exempt_burst_counts_only_200[of "always (answer 429 limit_body)" w0 "''/health''" 0 0
      "always (Inl ConnectionError)"]
  by (simp add: service_defs is_200_def)

section \<open>The loop of demonstrate\_backoff\_strategy\<close>

lemma world_eta [simp]: "\<lparr>sent = sent w, events = events w\<rparr> = (w::world)"
  by (cases w) simp

lemma backoff_iteration_break:
  assumes "users_ok (env (sent w))"
  shows "backoff_iteration env mx b a w =
           (Break, \<lparr>sent = Suc (sent w), events = events w @ [users_request ''10'']\<rparr>)"
  using assms
  by (auto simp: model_defs notion_defs Let_def split: sum.splits body.splits json.splits option.splits)

lemma backoff_iteration_continue:
  assumes "\<not> users_ok (env (sent w))" and "\<not> fatal (env (sent w))"
  shows "backoff_iteration env mx b a w =
           (Continue, \<lparr>sent = Suc (sent w),
              events = events w @ backoff_events mx b a (env (sent w))\<rparr>)"
  using assms
  by (auto simp: model_defs notion_defs backoff_events_def Let_def
      split: sum.splits body.splits json.splits option.splits)

lemma backoff_iteration_sent:
  "\<exists>post. snd (backoff_iteration env mx b a w) =
     \<lparr>sent = Suc (sent w), events = events w @ users_request ''10'' # post\<rparr>"
  by (auto simp: model_defs notion_defs Let_def
      split: sum.splits body.splits json.splits option.splits)

lemma backoff_loop_grows:
  "\<exists>post. events (snd (backoff_loop env mx b as w)) = events w @ post
     \<and> sent (snd (backoff_loop env mx b as w)) \<le> sent w + length as"
proof (induction as arbitrary: w)
  case Nil
  then show ?case by simp
next
  case (Cons a as)
  obtain fl w1 where it: "backoff_iteration env mx b a w = (fl, w1)"
    by (cases "backoff_iteration env mx b a w")
  from backoff_iteration_sent[of env mx b a w] it obtain p1 where
    w1: "w1 = \<lparr>sent = Suc (sent w), events = events w @ users_request ''10'' # p1\<rparr>"
    by auto
  from Cons.IH[of w1] obtain p2 where
    "events (snd (backoff_loop env mx b as w1)) = events w1 @ p2"
    "sent (snd (backoff_loop env mx b as w1)) \<le> sent w1 + length as"
    by blast
  then show ?case using it w1 by (cases fl) auto
qed

lemma backoff_loop_starts:
  "\<exists>post. events (snd (backoff_loop env mx b (a # as) w)) = events w @ users_request ''10'' # post"
proof -
  obtain fl w1 where it: "backoff_iteration env mx b a w = (fl, w1)"
    by (cases "backoff_iteration env mx b a w")
  from backoff_iteration_sent[of env mx b a w] it obtain p1 where
    w1: "w1 = \<lparr>sent = Suc (sent w), events = events w @ users_request ''10'' # p1\<rparr>"
    by auto
  from backoff_loop_grows[of env mx b as w1] obtain p2 where
    "events (snd (backoff_loop env mx b as w1)) = events w1 @ p2"
    by blast
  then show ?thesis using it w1 by (cases fl) auto
qed

lemma backoff_loop_skip:
  assumes "\<forall>j<d. \<not> users_ok (env (sent w + j)) \<and> \<not> fatal (env (sent w + j))"
    and "k + d \<le> m"
  shows "backoff_loop env mx b [k..<m] w =
           backoff_loop env mx b [k + d..<m]
             \<lparr>sent = sent w + d,
              events = events w @
                concat (map (\<lambda>j. backoff_events mx b (k + j) (env (sent w + j))) [0..<d])\<rparr>"
  using assms
proof (induction d arbitrary: k w)
  case 0
  then show ?case by simp
next
  case (Suc d)
  from Suc.prems(1)[rule_format, of 0]
  have r0: "\<not> users_ok (env (sent w))" "\<not> fatal (env (sent w))" by simp_all
  let ?w1 = "\<lparr>sent = Suc (sent w), events = events w @ backoff_events mx b k (env (sent w))\<rparr>"
  have k: "[k..<m] = k # [Suc k..<m]" using Suc.prems(2) by (simp add: upt_conv_Cons)
  have step: "backoff_loop env mx b [k..<m] w = backoff_loop env mx b [Suc k..<m] ?w1"
    by (simp add: k backoff_iteration_continue[of env w, OF r0])
  have "\<forall>j<d. \<not> users_ok (env (sent ?w1 + j)) \<and> \<not> fatal (env (sent ?w1 + j))"
    using Suc.prems(1) by auto
  from Suc.IH[of ?w1 "Suc k", OF this] Suc.prems(2)
  show ?case unfolding step
    by (simp add: upt_0_Suc[of d] comp_def del: upt_Suc)
qed

lemma backoff_events_requests:
  "length (filter is_Request (concat (map (\<lambda>j. backoff_events mx b (f j) (g j)) [0..<k]))) = k"
  by (induction k) (simp_all add: backoff_events_def users_request_def)

section \<open>APIClient.get and the retry loop of example\_safe\_request\<close>

lemma get_handlers_isinstance:
  "isinstance_Exception (get_handlers timeout e) = isinstance_Exception e"
  by (cases e) (simp_all add: get_handlers_def)




lemma retry_iteration_break:
  assumes "products_ok (env (sent w))"
  shows "retry_iteration env timeout mx a (d, w) =
           (Break, d, \<lparr>sent = Suc (sent w), events = events w @ [products_request]\<rparr>)"
  using assms
  by (auto simp: model_defs notion_defs Let_def split: sum.splits body.splits json.splits option.splits)

lemma retry_iteration_continue:
  assumes "\<not> products_ok (env (sent w))" and "\<not> fatal (env (sent w))"
  shows "retry_iteration env timeout mx a (d, w) =
           (if Suc a < mx
            then (Continue, d * 2,
                  \<lparr>sent = Suc (sent w), events = events w @ [products_request, Sleep d]\<rparr>)
            else (Continue, d,
                  \<lparr>sent = Suc (sent w), events = events w @ [products_request]\<rparr>))"
proof (cases "env (sent w)")
  case (Inl e)
  with assms(2) have "isinstance_Exception (get_handlers timeout e)"
    by (simp add: fatal_def get_handlers_isinstance)
  with Inl show ?thesis
    by (simp add: retry_iteration_def APIClient_get_def requests_get_def time_sleep_def
        products_request_def Let_def)
next
  case (Inr resp)
  with assms(1) show ?thesis
    by (auto simp: model_defs notion_defs Let_def
        split: sum.splits body.splits json.splits option.splits)
qed

lemma retry_iteration_sent:
  "\<exists>post. snd (snd (retry_iteration env timeout mx a (d, w))) =
     \<lparr>sent = Suc (sent w), events = events w @ products_request # post\<rparr>"
proof (cases "products_ok (env (sent w))")
  case True
  then show ?thesis by (simp add: retry_iteration_break)
next
  case False
  show ?thesis
  proof (cases "fatal (env (sent w))")
    case True
    then obtain e where "env (sent w) = Inl e" "\<not> isinstance_Exception e"
      by (cases "env (sent w)") (auto simp: fatal_def)
    then show ?thesis
      by (simp add: retry_iteration_def APIClient_get_def requests_get_def
          products_request_def get_handlers_isinstance Let_def)
  next
    case nf: False
    show ?thesis by (simp add: retry_iteration_continue[of env w, OF False nf])
  qed
qed

lemma retry_loop_grows:
  "\<exists>post. events (snd (snd (retry_loop env timeout mx as (d, w)))) = events w @ post
     \<and> sent (snd (snd (retry_loop env timeout mx as (d, w)))) \<le> sent w + length as"
proof (induction as arbitrary: d w)
  case Nil
  then show ?case by simp
next
  case (Cons a as)
  obtain fl d1 w1 where it: "retry_iteration env timeout mx a (d, w) = (fl, d1, w1)"
    by (cases "retry_iteration env timeout mx a (d, w)")
  from retry_iteration_sent[of env timeout mx a d w] it obtain p1 where
    w1: "w1 = \<lparr>sent = Suc (sent w), events = events w @ products_request # p1\<rparr>"
    by auto
  from Cons.IH[of d1 w1] obtain p2 where
    "events (snd (snd (retry_loop env timeout mx as (d1, w1)))) = events w1 @ p2"
    "sent (snd (snd (retry_loop env timeout mx as (d1, w1)))) \<le> sent w1 + length as"
    by blast
  then show ?case using it w1 by (cases fl) auto
qed

lemma retry_loop_starts:
  "\<exists>post. events (snd (snd (retry_loop env timeout mx (a # as) (d, w)))) =
     events w @ products_request # post"
proof -
  obtain fl d1 w1 where it: "retry_iteration env timeout mx a (d, w) = (fl, d1, w1)"
    by (cases "retry_iteration env timeout mx a (d, w)")
  from retry_iteration_sent[of env timeout mx a d w] it obtain p1 where
    w1: "w1 = \<lparr>sent = Suc (sent w), events = events w @ products_request # p1\<rparr>"
    by auto
  from retry_loop_grows[of env timeout mx as d1 w1] obtain p2 where
    "events (snd (snd (retry_loop env timeout mx as (d1, w1)))) = events w1 @ p2"
    by blast
  then show ?thesis using it w1 by (cases fl) auto
qed

lemma retry_loop_skip:
  assumes "\<forall>j<n. \<not> products_ok (env (sent w + j)) \<and> \<not> fatal (env (sent w + j))"
    and "k + n < mx" and "k + n \<le> m"
  shows "retry_loop env timeout mx [k..<m] (d, w) =
           retry_loop env timeout mx [k + n..<m]
             (d * 2 ^ n,
              \<lparr>sent = sent w + n,
               events = events w @
                 concat (map (\<lambda>j. [products_request, Sleep (backoff_delay d 2 j)]) [0..<n])\<rparr>)"
  using assms
proof (induction n arbitrary: k w d)
  case 0
  then show ?case by simp
next
  case (Suc n)
  from Suc.prems(1)[rule_format, of 0]
  have r0: "\<not> products_ok (env (sent w))" "\<not> fatal (env (sent w))" by simp_all
  let ?w1 = "\<lparr>sent = Suc (sent w), events = events w @ [products_request, Sleep d]\<rparr>"
  have k: "[k..<m] = k # [Suc k..<m]" using Suc.prems(3) by (simp add: upt_conv_Cons)
  have "Suc k < mx" using Suc.prems(2) by simp
  then have step: "retry_loop env timeout mx [k..<m] (d, w) =
      retry_loop env timeout mx [Suc k..<m] (d * 2, ?w1)"
    by (simp add: k retry_iteration_continue[of env w, OF r0])
  have "\<forall>j<n. \<not> products_ok (env (sent ?w1 + j)) \<and> \<not> fatal (env (sent ?w1 + j))"
    using Suc.prems(1) by auto
  from Suc.IH[of ?w1 "Suc k" "d * 2", OF this] Suc.prems(2,3)
  show ?case unfolding step
    by (simp add: upt_0_Suc[of n] comp_def backoff_delay_def mult.assoc del: upt_Suc)
qed

lemma retry_events_requests:
  "length (filter is_Request
     (concat (map (\<lambda>j. [products_request, Sleep (backoff_delay d 2 j)]) [0..<k]))) = k"
  by (induction k) (simp_all add: products_request_def)



section \<open>The claims on the two retry loops\<close>

text \<open>
  C6, as the code has it. Both retry loops send at most \<open>max_retries\<close> requests,
  whatever the replies. When attempt \<open>k\<close> is the first one with a reply that the
  loop takes for a success (for demonstrate\_backoff\_strategy a response with status
  exactly 200 and a JSON object with a \<open>count\<close>; for the loop of
  example\_safe\_request a response with a status below 400 and such a body), the loop
  ends without an exception after \<open>k + 1\<close> requests, and the last thing it did is
  that request. The loops print and leave by \<^verbatim>\<open>break\<close>; no outcome is returned.
\<close>

theorem retry_stops_at_first_success:
  "sent (snd (run_backoff env mx b w)) \<le> sent w + mx
   \<and> sent (snd (snd (run_retry env timeout mx d w))) \<le> sent w + mx
   \<and> (k < mx \<and> users_ok (env (sent w + k))
        \<and> (\<forall>j<k. \<not> users_ok (env (sent w + j)) \<and> \<not> fatal (env (sent w + j))) \<longrightarrow>
          fst (run_backoff env mx b w) = None
          \<and> sent (snd (run_backoff env mx b w)) = sent w + k + 1
          \<and> last (events (snd (run_backoff env mx b w))) = users_request ''10'')
   \<and> (k < mx \<and> products_ok (env (sent w + k))
        \<and> (\<forall>j<k. \<not> products_ok (env (sent w + j)) \<and> \<not> fatal (env (sent w + j))) \<longrightarrow>
          fst (run_retry env timeout mx d w) = None
          \<and> sent (snd (snd (run_retry env timeout mx d w))) = sent w + k + 1
          \<and> last (events (snd (snd (run_retry env timeout mx d w)))) = products_request)"
proof (intro conjI impI)
  show "sent (snd (run_backoff env mx b w)) \<le> sent w + mx"
    using backoff_loop_grows[of env mx b "[0..<mx]" w] by (auto simp: run_backoff_def)
next
  show "sent (snd (snd (run_retry env timeout mx d w))) \<le> sent w + mx"
    using retry_loop_grows[of env timeout mx "[0..<mx]" d w] by (auto simp: run_retry_def)
next
  assume a: "k < mx \<and> users_ok (env (sent w + k))
    \<and> (\<forall>j<k. \<not> users_ok (env (sent w + j)) \<and> \<not> fatal (env (sent w + j)))"
  then have k: "[k..<mx] = k # [Suc k..<mx]" by (simp add: upt_conv_Cons)
  from a have skip: "backoff_loop env mx b [0..<mx] w =
      backoff_loop env mx b [0 + k..<mx]
        \<lparr>sent = sent w + k,
         events = events w @
           concat (map (\<lambda>j. backoff_events mx b (0 + j) (env (sent w + j))) [0..<k])\<rparr>"
    by (intro backoff_loop_skip) auto
  let ?wk = "\<lparr>sent = sent w + k,
     events = events w @ concat (map (\<lambda>j. backoff_events mx b j (env (sent w + j))) [0..<k])\<rparr>"
  from a have "users_ok (env (sent ?wk))" by simp
  from backoff_iteration_break[of env ?wk mx b k, OF this]
  have res: "run_backoff env mx b w =
      (None, \<lparr>sent = Suc (sent ?wk), events = events ?wk @ [users_request ''10'']\<rparr>)"
    unfolding run_backoff_def skip by (simp add: k del: upt_Suc)
  show "fst (run_backoff env mx b w) = None" by (simp add: res)
  show "sent (snd (run_backoff env mx b w)) = sent w + k + 1" by (simp add: res)
  show "last (events (snd (run_backoff env mx b w))) = users_request ''10''" by (simp add: res)
next
  assume a: "k < mx \<and> products_ok (env (sent w + k))
    \<and> (\<forall>j<k. \<not> products_ok (env (sent w + j)) \<and> \<not> fatal (env (sent w + j)))"
  then have k: "[k..<mx] = k # [Suc k..<mx]" by (simp add: upt_conv_Cons)
  from a have skip: "retry_loop env timeout mx [0..<mx] (d, w) =
      retry_loop env timeout mx [0 + k..<mx]
        (d * 2 ^ k,
         \<lparr>sent = sent w + k,
          events = events w @
            concat (map (\<lambda>j. [products_request, Sleep (backoff_delay d 2 j)]) [0..<k])\<rparr>)"
    by (intro retry_loop_skip) auto
  let ?wk = "\<lparr>sent = sent w + k,
     events = events w @
       concat (map (\<lambda>j. [products_request, Sleep (backoff_delay d 2 j)]) [0..<k])\<rparr>"
  from a have "products_ok (env (sent ?wk))" by simp
  from retry_iteration_break[of env ?wk timeout mx k "d * 2 ^ k", OF this]
  have res: "run_retry env timeout mx d w =
      (None, d * 2 ^ k, \<lparr>sent = Suc (sent ?wk), events = events ?wk @ [products_request]\<rparr>)"
    unfolding run_retry_def skip by (simp add: k del: upt_Suc)
  show "fst (run_retry env timeout mx d w) = None" by (simp add: res)
  show "sent (snd (snd (run_retry env timeout mx d w))) = sent w + k + 1" by (simp add: res)
  show "last (events (snd (snd (run_retry env timeout mx d w)))) = products_request"
    by (simp add: res)
qed

theorem retry_stops_at_first_success_witness:
  "sent (snd (run_backoff (first_then 2 (answer 429 limit_body) (answer 200 users_body)) 5 1 w0)) \<le> 5
   \<and> fst (run_backoff (first_then 2 (answer 429 limit_body) (answer 200 users_body)) 5 1 w0) = None
   \<and> sent (snd (run_backoff (first_then 2 (answer 429 limit_body) (answer 200 users_body)) 5 1 w0)) = 3
   \<and> fst (run_retry (first_then 2 (Inl Timeout) (answer 200 users_body)) 10 3 1 w0) = None
   \<and> sent (snd (snd (run_retry (first_then 2 (Inl Timeout) (answer 200 users_body)) 10 3 1 w0))) = 3"
  using retry_stops_at_first_success[of "first_then 2 (answer 429 limit_body) (answer 200 users_body)"
      5 1 w0 10 1 2]
    retry_stops_at_first_success[of "first_then 2 (Inl Timeout) (answer 200 users_body)"
      3 1 w0 10 1 2]
  by (simp add: service_defs notion_defs)

text \<open>
  The claim C6 as written fails: a response with status 201 is a success by its status,
  and demonstrate\_backoff\_strategy, which tests for 200, goes on to use all five
  attempts.
\<close>

theorem created_201_uses_all_attempts_counterexample:
  "demonstrate_backoff_strategy (always (answer 201 users_body)) w0 =
     (None, \<lparr>sent = 5, events = replicate 5 (users_request ''10'')\<rparr>)"
  by (simp add: demonstrate_backoff_strategy_def run_backoff_def upt_rec eval_nat_numeral
      model_defs service_defs notion_defs)

text \<open>
  C3, as the code has it. In demonstrate\_backoff\_strategy an attempt \<open>k\<close> that is
  answered with 429 and is not the last one is followed by a sleep of
  \<open>base_delay * 2 ^ k\<close> seconds and then by the next request; an attempt that fails in
  another way is followed by the next request at once. In the retry loop of
  example\_safe\_request every failed attempt \<open>k\<close> that is not the last one is followed
  by a sleep of \<open>retry_delay * 2 ^ k\<close> seconds and then by the next request. With
  \<open>max_retries = 1\<close> either loop sends one request and does not sleep.
\<close>

theorem backoff_sleeps_between_attempts:
  "(Suc k < mx \<and> (\<forall>j<k. \<not> users_ok (env (sent w + j)) \<and> \<not> fatal (env (sent w + j)))
      \<and> throttled (env (sent w + k)) \<longrightarrow>
      (\<exists>pre post. events (snd (run_backoff env mx b w)) =
           events w @ pre @ [users_request ''10'', Sleep (backoff_delay b 2 k), users_request ''10''] @ post
         \<and> length (filter is_Request pre) = k))
   \<and> (Suc k < mx \<and> (\<forall>j<Suc k. \<not> users_ok (env (sent w + j)) \<and> \<not> fatal (env (sent w + j)))
      \<and> \<not> throttled (env (sent w + k)) \<longrightarrow>
      (\<exists>pre post. events (snd (run_backoff env mx b w)) =
           events w @ pre @ [users_request ''10'', users_request ''10''] @ post
         \<and> length (filter is_Request pre) = k))
   \<and> (Suc k < mx
      \<and> (\<forall>j<Suc k. \<not> products_ok (env (sent w + j)) \<and> \<not> fatal (env (sent w + j))) \<longrightarrow>
      (\<exists>pre post. events (snd (snd (run_retry env timeout mx d w))) =
           events w @ pre @ [products_request, Sleep (backoff_delay d 2 k), products_request] @ post
         \<and> length (filter is_Request pre) = k))
   \<and> events (snd (run_backoff env 1 b w)) = events w @ [users_request ''10'']
   \<and> events (snd (snd (run_retry env timeout 1 d w))) = events w @ [products_request]"
proof (intro conjI impI)
  assume a: "Suc k < mx
    \<and> (\<forall>j<k. \<not> users_ok (env (sent w + j)) \<and> \<not> fatal (env (sent w + j)))
    \<and> throttled (env (sent w + k))"
  let ?f = "\<lambda>j. backoff_events mx b (0 + j) (env (sent w + j))"
  let ?pre = "concat (map ?f [0..<k])"
  from a have tk: "\<not> users_ok (env (sent w + k)) \<and> \<not> fatal (env (sent w + k))"
    by (cases "env (sent w + k)") (auto simp: throttled_def users_ok_def fatal_def)
  with a have all: "\<forall>j<Suc k. \<not> users_ok (env (sent w + j)) \<and> \<not> fatal (env (sent w + j))"
    by (auto simp: less_Suc_eq)
  from a have le: "0 + Suc k \<le> mx" by simp
  have skip: "backoff_loop env mx b [0..<mx] w =
      backoff_loop env mx b [0 + Suc k..<mx]
        \<lparr>sent = sent w + Suc k, events = events w @ concat (map ?f [0..<Suc k])\<rparr>"
    by (rule backoff_loop_skip[OF all le])
  from a have nxt: "[0 + Suc k..<mx] = Suc k # [Suc (Suc k)..<mx]" by (simp add: upt_conv_Cons)
  from a have fk: "?f k = [users_request ''10'', Sleep (backoff_delay b 2 k)]"
    by (simp add: backoff_events_def)
  from backoff_loop_starts[of env mx b "Suc k" "[Suc (Suc k)..<mx]"
      "\<lparr>sent = sent w + Suc k, events = events w @ concat (map ?f [0..<Suc k])\<rparr>"]
  obtain post where
    "events (snd (run_backoff env mx b w)) =
       (events w @ concat (map ?f [0..<Suc k])) @ users_request ''10'' # post"
    unfolding run_backoff_def skip nxt by auto
  then have "events (snd (run_backoff env mx b w)) =
      events w @ ?pre @ [users_request ''10'', Sleep (backoff_delay b 2 k), users_request ''10''] @ post"
    using fk by simp
  moreover have "length (filter is_Request ?pre) = k" by (rule backoff_events_requests)
  ultimately show "\<exists>pre post. events (snd (run_backoff env mx b w)) =
      events w @ pre @ [users_request ''10'', Sleep (backoff_delay b 2 k), users_request ''10''] @ post
      \<and> length (filter is_Request pre) = k"
    by blast
next
  assume a: "Suc k < mx
    \<and> (\<forall>j<Suc k. \<not> users_ok (env (sent w + j)) \<and> \<not> fatal (env (sent w + j)))
    \<and> \<not> throttled (env (sent w + k))"
  let ?f = "\<lambda>j. backoff_events mx b (0 + j) (env (sent w + j))"
  let ?pre = "concat (map ?f [0..<k])"
  from a have all: "\<forall>j<Suc k. \<not> users_ok (env (sent w + j)) \<and> \<not> fatal (env (sent w + j))"
    by simp
  from a have le: "0 + Suc k \<le> mx" by simp
  have skip: "backoff_loop env mx b [0..<mx] w =
      backoff_loop env mx b [0 + Suc k..<mx]
        \<lparr>sent = sent w + Suc k, events = events w @ concat (map ?f [0..<Suc k])\<rparr>"
    by (rule backoff_loop_skip[OF all le])
  from a have nxt: "[0 + Suc k..<mx] = Suc k # [Suc (Suc k)..<mx]" by (simp add: upt_conv_Cons)
  from a have fk: "?f k = [users_request ''10'']"
    by (simp add: backoff_events_def)
  from backoff_loop_starts[of env mx b "Suc k" "[Suc (Suc k)..<mx]"
      "\<lparr>sent = sent w + Suc k, events = events w @ concat (map ?f [0..<Suc k])\<rparr>"]
  obtain post where
    "events (snd (run_backoff env mx b w)) =
       (events w @ concat (map ?f [0..<Suc k])) @ users_request ''10'' # post"
    unfolding run_backoff_def skip nxt by auto
  then have "events (snd (run_backoff env mx b w)) =
      events w @ ?pre @ [users_request ''10'', users_request ''10''] @ post"
    using fk by simp
  moreover have "length (filter is_Request ?pre) = k" by (rule backoff_events_requests)
  ultimately show "\<exists>pre post. events (snd (run_backoff env mx b w)) =
      events w @ pre @ [users_request ''10'', users_request ''10''] @ post
      \<and> length (filter is_Request pre) = k"
    by blast
next
  assume a: "Suc k < mx
    \<and> (\<forall>j<Suc k. \<not> products_ok (env (sent w + j)) \<and> \<not> fatal (env (sent w + j)))"
  let ?f = "\<lambda>j. [products_request, Sleep (backoff_delay d 2 j)]"
  let ?pre = "concat (map ?f [0..<k])"
  from a have all: "\<forall>j<Suc k. \<not> products_ok (env (sent w + j)) \<and> \<not> fatal (env (sent w + j))"
    by simp
  from a have lt: "0 + Suc k < mx" and le: "0 + Suc k \<le> mx" by simp_all
  have skip: "retry_loop env timeout mx [0..<mx] (d, w) =
      retry_loop env timeout mx [0 + Suc k..<mx]
        (d * 2 ^ Suc k,
         \<lparr>sent = sent w + Suc k, events = events w @ concat (map ?f [0..<Suc k])\<rparr>)"
    by (rule retry_loop_skip[OF all lt le])
  from a have nxt: "[0 + Suc k..<mx] = Suc k # [Suc (Suc k)..<mx]" by (simp add: upt_conv_Cons)
  from retry_loop_starts[of env timeout mx "Suc k" "[Suc (Suc k)..<mx]" "d * 2 ^ Suc k"
      "\<lparr>sent = sent w + Suc k, events = events w @ concat (map ?f [0..<Suc k])\<rparr>"]
  obtain post where
    "events (snd (snd (run_retry env timeout mx d w))) =
       (events w @ concat (map ?f [0..<Suc k])) @ products_request # post"
    unfolding run_retry_def skip nxt by auto
  then have "events (snd (snd (run_retry env timeout mx d w))) =
      events w @ ?pre @ [products_request, Sleep (backoff_delay d 2 k), products_request] @ post"
    by simp
  moreover have "length (filter is_Request ?pre) = k" by (rule retry_events_requests)
  ultimately show "\<exists>pre post. events (snd (snd (run_retry env timeout mx d w))) =
      events w @ pre @ [products_request, Sleep (backoff_delay d 2 k), products_request] @ post
      \<and> length (filter is_Request pre) = k"
    by blast
next
  show "events (snd (run_backoff env 1 b w)) = events w @ [users_request ''10'']"
    by (auto simp: run_backoff_def model_defs notion_defs Let_def
        split: sum.splits body.splits json.splits option.splits)
next
  show "events (snd (snd (run_retry env timeout 1 d w))) = events w @ [products_request]"
  proof (cases "products_ok (env (sent w))")
    case True
    then show ?thesis by (simp add: run_retry_def retry_iteration_break)
  next
    case False
    show ?thesis
    proof (cases "fatal (env (sent w))")
      case True
      then obtain e where "env (sent w) = Inl e" "\<not> isinstance_Exception e"
        by (cases "env (sent w)") (auto simp: fatal_def)
      then show ?thesis
        by (simp add: run_retry_def retry_iteration_def APIClient_get_def requests_get_def
            products_request_def get_handlers_isinstance Let_def)
    next
      case nf: False
      show ?thesis
        by (simp add: run_retry_def retry_iteration_continue[of env w, OF False nf])
    qed
  qed
qed

theorem backoff_sleeps_between_attempts_witness:
  "(\<exists>pre post. events (snd (run_backoff (always (answer 429 limit_body)) 5 1 w0)) =
        pre @ [users_request ''10'', Sleep 4, users_request ''10''] @ post
      \<and> length (filter is_Request pre) = 2)
   \<and> (\<exists>pre post. events (snd (snd (run_retry (always (Inl Timeout)) 10 5 1 w0))) =
        pre @ [products_request, Sleep 4, products_request] @ post
      \<and> length (filter is_Request pre) = 2)
   \<and> events (snd (run_backoff (always (answer 429 limit_body)) 1 1 w0)) = [users_request ''10'']"
  using backoff_sleeps_between_attempts[of 2 5 "always (answer 429 limit_body)" w0 1 10 1]
    backoff_sleeps_between_attempts[of 2 5 "always (Inl Timeout)" w0 1 10 1]
  by (simp add: service_defs notion_defs backoff_delay_def)

text \<open>
  The claim C3 as written fails for a Failed attempt in demonstrate\_backoff\_strategy:
  when every reply is a 500, the five requests follow each other with no sleep at all.
\<close>

theorem no_backoff_after_failure_counterexample:
  "demonstrate_backoff_strategy (always (answer 500 NoContent)) w0 =
     (None, \<lparr>sent = 5, events = replicate 5 (users_request ''10'')\<rparr>)"
  by (simp add: demonstrate_backoff_strategy_def run_backoff_def upt_rec eval_nat_numeral
      model_defs service_defs notion_defs)

section \<open>What APIClient.get hands to the retry loop\<close>





text \<open>Values of the model at some replies.\<close>

lemma get_on_429:
  "fst (APIClient_get (always (answer 429 limit_body)) 10 ''/api/products'' [(''count'', ''2'')] w0) =
     Inl (Exception (HTTP_status 429 ''Rate limit exceeded''))"
  by (simp add: model_defs service_defs)

lemma get_on_unparseable_200:
  "fst (APIClient_get (always (answer 200 Unparseable)) 10 ''/api/products'' [(''count'', ''2'')] w0) =
     Inl (Exception Request_error)"
  by (simp add: model_defs service_defs)

lemma example_safe_request_refused:
  "example_safe_request (always (Inl ConnectionError)) w0 =
     (None, \<lparr>sent = 7, events = [Request ''/api/users'' [(''count'', ''3'')],
        Request ''/api/users'' [(''count'', ''150'')], Request ''/api/invalid'' [],
        Request ''/api/random'' [(''type'', ''invalid''), (''count'', ''1'')],
        products_request, Sleep 1, products_request, Sleep 2, products_request]\<rparr>)"
  by (simp add: example_safe_request_def safe_call_def run_retry_def upt_rec eval_nat_numeral
      model_defs service_defs notion_defs)

end
